theory Spec2Isabelle
  imports Main "HOL-Library.Multiset"
begin

section \<open>The data of package api that the index reads\<close>

text \<open>
  Modelled from the spec: the types of the packages api and resource, which are not among
  the sources, with the fields that \<^verbatim>\<open>pkg/volumeclaimbinder/types.go\<close> reads. Of a
  persistent volume these are its access modes, the storage entry of its capacity and
  its claim reference, and the name by which the store keys it; of a claim, its access
  modes and its resource requests. The Go types \<^verbatim>\<open>AccessModeType\<close> and \<^verbatim>\<open>ResourceName\<close> are
  strings, a \<^verbatim>\<open>ResourceList\<close> is a Go map from resource names to quantities, and a
  quantity is an amount that may be absent (the zero \<^verbatim>\<open>Quantity\<close>). The volume and claim
  pointers that the queries take as arguments are taken to be non-nil: the queries
  dereference them without a test. An object handed to the index function may be a nil
  pointer of the volume type; it is the value \<open>NilVolumeObj\<close> below.
\<close>

type_synonym AccessModeType = string
type_synonym ResourceName = string

datatype Quantity = Quantity (Amount: "int option")

type_synonym ResourceList = "ResourceName \<rightharpoonup> Quantity"

datatype ObjectReference = ObjectReference string

record PersistentVolumeSpec =
  Capacity :: ResourceList
  AccessModes :: "AccessModeType list"
  ClaimRef :: "ObjectReference option"

record PersistentVolume =
  Name :: string
  Spec :: PersistentVolumeSpec

record ResourceRequirements =
  Requests :: ResourceList

text \<open>The claim's fields \<^verbatim>\<open>Spec\<close> and \<^verbatim>\<open>AccessModes\<close> carry a prefix here, the volume has
  fields of the same names.\<close>

record PersistentVolumeClaimSpec =
  ClaimAccessModes :: "AccessModeType list"
  Resources :: ResourceRequirements

record PersistentVolumeClaim =
  ClaimName :: string
  ClaimSpec :: PersistentVolumeClaimSpec

text \<open>Modelled from the spec: the constant \<^verbatim>\<open>api.ResourceStorage\<close> (package api is not among
  the sources), the resource name under which a resource list holds the storage size.\<close>

definition ResourceStorage :: ResourceName where
  "ResourceStorage = ''storage''"

text \<open>Modelled from the spec: \<^verbatim>\<open>resource.Quantity.Value\<close> (package resource is not among
  the sources), the integer a quantity stands for. The zero \<^verbatim>\<open>Quantity\<close>, which has no
  amount, reads as 0.\<close>

definition Value :: "Quantity \<Rightarrow> int" where
  "Value q = (case Amount q of None \<Rightarrow> 0 | Some a \<Rightarrow> a)"

text \<open>Reading a Go map at a key it does not hold gives the zero value of the element type,
  here the quantity without amount; it neither fails nor panics (also on a nil map).\<close>

definition lookup :: "ResourceList \<Rightarrow> ResourceName \<Rightarrow> Quantity" where
  "lookup m k = (case m k of None \<Rightarrow> Quantity None | Some q \<Rightarrow> q)"

text \<open>A value of type \<^verbatim>\<open>interface{}\<close>: a pointer to a persistent volume, the nil pointer of
  type \<^verbatim>\<open>*api.PersistentVolume\<close>, or something of another type.\<close>

datatype obj =
    VolumeObj PersistentVolume
  | NilVolumeObj
  | ClaimObj PersistentVolumeClaim
  | OtherObj string

text \<open>How a call ends when it does not return a result: with the error of
  \<^verbatim>\<open>accessModesIndexFunc\<close>, with an error that the store's lookup reports, or with a panic
  (a failed type assertion, a nil pointer dereferenced). A panic is not a returned error.\<close>

datatype error =
    NotPersistentVolume obj
  | LookupFailure string
  | TypeAssertionPanic obj
  | NilPointerPanic

fun isPanic :: "error \<Rightarrow> bool" where
  "isPanic (NotPersistentVolume obj) = False"
| "isPanic (LookupFailure msg) = False"
| "isPanic (TypeAssertionPanic obj) = True"
| "isPanic NilPointerPanic = True"

text \<open>Modelled from the spec: \<^verbatim>\<open>volume.GetAccessModesAsString\<close> (package volume is not
  among the sources), the capability signature: a string fixed by the set of access modes,
  whatever their order. The functions of the index take the signature function as their
  argument \<open>sig\<close>, so that no theorem with a free \<open>sig\<close> depends on the format chosen here;
  this one is the instance at which closed theorems are evaluated.\<close>

definition GetAccessModesAsString :: "AccessModeType list \<Rightarrow> string" where
  "GetAccessModesAsString modes =
     (if ''ReadWriteOnce'' \<in> set modes then ''RWO,'' else [])
     @ (if ''ReadOnlyMany'' \<in> set modes then ''ROX,'' else [])
     @ (if ''ReadWriteMany'' \<in> set modes then ''RWX,'' else [])"

section \<open>Package sort\<close>

text \<open>
  \<^verbatim>\<open>sort.Interface\<close>: the three methods through which \<^verbatim>\<open>sort.Sort\<close> reads and permutes
  the data \<open>'s\<close> it is given.
\<close>

record 's Interface =
  Len :: "'s \<Rightarrow> nat"
  Less :: "'s \<Rightarrow> nat \<Rightarrow> nat \<Rightarrow> bool"
  Swap :: "'s \<Rightarrow> nat \<Rightarrow> nat \<Rightarrow> 's"

text \<open>
  \<^verbatim>\<open>sort.Search(n, f)\<close>, the binary search of the Go library:
  \<^verbatim>\<open>
  i, j := 0, n
  for i < j {
      h := i + (j-i)/2
      if !f(h) { i = h + 1 } else { j = h }
  }
  return i
  \<close>
\<close>

function Search_loop :: "(nat \<Rightarrow> bool) \<Rightarrow> nat \<Rightarrow> nat \<Rightarrow> nat" where
  "Search_loop f i j =
     (if i < j then
        (let h = i + (j - i) div 2 in
         if \<not> f h then Search_loop f (h + 1) j else Search_loop f i h)
      else i)"
  by pat_completeness auto
termination
  by (relation "measure (\<lambda>(f, i, j). j - i)") auto

declare Search_loop.simps [simp del]

definition Search :: "nat \<Rightarrow> (nat \<Rightarrow> bool) \<Rightarrow> nat" where
  "Search n f = Search_loop f 0 n"

text \<open>
  \<^verbatim>\<open>insertionSort(data, a, b)\<close> of the Go library:
  \<^verbatim>\<open>
  for i := a + 1; i < b; i++ {
      for j := i; j > a && data.Less(j, j-1); j-- {
          data.Swap(j, j-1)
      }
  }
  \<close>
  \<open>insertionSort_inner\<close> is the inner loop, started at \<open>j\<close>.
\<close>

fun insertionSort_inner :: "'s Interface \<Rightarrow> nat \<Rightarrow> nat \<Rightarrow> 's \<Rightarrow> 's" where
  "insertionSort_inner I a 0 data = data"
| "insertionSort_inner I a (Suc k) data =
     (if Suc k > a \<and> Less I data (Suc k) k
      then insertionSort_inner I a k (Swap I data (Suc k) k)
      else data)"

definition insertionSort :: "'s Interface \<Rightarrow> 's \<Rightarrow> nat \<Rightarrow> nat \<Rightarrow> 's" where
  "insertionSort I data a b = fold (insertionSort_inner I a) [a + 1..<b] data"

text \<open>
  \<^verbatim>\<open>sort.Sort\<close> on a short slice. \<^verbatim>\<open>Sort\<close> calls \<^verbatim>\<open>quickSort(data, 0, n, maxDepth)\<close>, whose
  partitioning loop runs only while the range is longer than a threshold (7 elements in
  the library of the time); below it, \<^verbatim>\<open>quickSort\<close> is
  \<^verbatim>\<open>if b-a > 1 { insertionSort(data, a, b) }\<close>. The partitioning and the heap sort of
  longer slices are not modelled: the index functions take the sorting routine as their
  argument \<open>srt\<close>, the theorems about slices of any length ask of it only that it returns
  a permutation of its input (\<^verbatim>\<open>Sort\<close> moves elements by \<^verbatim>\<open>data.Swap\<close> alone), and
  \<open>Sort_short\<close> is the routine at which the closed theorems, on two or three volumes,
  are evaluated.
\<close>

definition Sort_short :: "'s Interface \<Rightarrow> 's \<Rightarrow> 's" where
  "Sort_short I data =
     (let n = Len I data in
      if n > 1 then insertionSort I data 0 n else data)"

section \<open>The store behind the index\<close>

text \<open>
  Modelled from the spec: the keyed store \<^verbatim>\<open>cache.Indexer\<close> (package cache is not among
  the sources) and its lookup \<^verbatim>\<open>Index(indexName, obj)\<close>. The store is the list of the
  objects it holds, in the order in which it enumerates them. \<open>Index\<close> derives the key of
  the probe with the index function registered under the name, fails with that
  function's error, and otherwise returns the stored objects whose derived key equals
  the probe's. It reads the store and does not change it.
\<close>

type_synonym Indexer = "obj list"

definition Index :: "(obj \<Rightarrow> error + string) \<Rightarrow> Indexer \<Rightarrow> obj \<Rightarrow> error + obj list" where
  "Index indexFunc store obj =
     (case indexFunc obj of
        Inl err \<Rightarrow> Inl err
      | Inr indexKey \<Rightarrow>
          Inr (filter (\<lambda>item. case indexFunc item of Inl _ \<Rightarrow> False | Inr k \<Rightarrow> k = indexKey) store))"

section \<open>The ordered index of persistent volumes\<close>

text \<open>\<^verbatim>\<open>accessModesIndexFunc\<close>. The type assertion \<^verbatim>\<open>obj.(*api.PersistentVolume)\<close> succeeds on
  every pointer of that type, the nil pointer too, and \<^verbatim>\<open>pv.Spec\<close> then dereferences it:
  on the nil pointer the function panics.\<close>

fun accessModesIndexFunc :: "(AccessModeType list \<Rightarrow> string) \<Rightarrow> obj \<Rightarrow> error + string" where
  "accessModesIndexFunc sig (VolumeObj pv) =
     (let modes = sig (AccessModes (Spec pv)) in Inr modes)"
| "accessModesIndexFunc sig NilVolumeObj = Inl NilPointerPanic"
| "accessModesIndexFunc sig obj = Inl (NotPersistentVolume obj)"

definition matchStorageCapacity :: "PersistentVolume \<Rightarrow> PersistentVolume \<Rightarrow> bool" where
  "matchStorageCapacity pvA pvB =
     (if ClaimRef (Spec pvA) \<noteq> None then False
      else
        (let aQty = lookup (Capacity (Spec pvA)) ResourceStorage;
             bQty = lookup (Capacity (Spec pvB)) ResourceStorage;
             aSize = Value aQty;
             bSize = Value bQty
         in aSize \<le> bSize))"

definition filterBoundVolumes :: "PersistentVolume \<Rightarrow> PersistentVolume \<Rightarrow> bool" where
  "filterBoundVolumes compareThis toThis =
     (if ClaimRef (Spec compareThis) \<noteq> None \<or> ClaimRef (Spec toThis) \<noteq> None then False
      else matchStorageCapacity compareThis toThis)"

text \<open>\<^verbatim>\<open>byCapacity\<close>, the \<^verbatim>\<open>sort.Interface\<close> over a slice of volumes.\<close>

definition byCapacity_Less :: "PersistentVolume list \<Rightarrow> nat \<Rightarrow> nat \<Rightarrow> bool" where
  "byCapacity_Less volumes i j = matchStorageCapacity (volumes ! i) (volumes ! j)"

definition byCapacity_Swap :: "PersistentVolume list \<Rightarrow> nat \<Rightarrow> nat \<Rightarrow> PersistentVolume list" where
  "byCapacity_Swap volumes i j = volumes[i := volumes ! j, j := volumes ! i]"

definition byCapacity_Len :: "PersistentVolume list \<Rightarrow> nat" where
  "byCapacity_Len volumes = length volumes"

definition byCapacity :: "PersistentVolume list Interface" where
  "byCapacity = \<lparr>Len = byCapacity_Len, Less = byCapacity_Less, Swap = byCapacity_Swap\<rparr>"

text \<open>The loop of \<^verbatim>\<open>ListByAccessModes\<close> that fills \<^verbatim>\<open>volumes\<close>: the type assertion
  \<^verbatim>\<open>obj.(*api.PersistentVolume)\<close> has no \<^verbatim>\<open>ok\<close> result, so it panics at the first object
  of another type. A nil pointer of the volume type passes the assertion, and the panic
  comes where the pointer is first dereferenced: in \<^verbatim>\<open>Less\<close> when the slice has two or more
  elements, else in the match predicate of \<^verbatim>\<open>Find\<close>. The lists of the model hold volumes,
  not pointers, and report that panic here, at the assertion (the source's
  \<^verbatim>\<open>ListByAccessModes\<close>, given a lookup result that is a single nil pointer, would return
  it; no theorem of the file is about such a result, and the lookup modelled above never
  returns a nil pointer, on which its index function panics).\<close>

fun assertVolumes :: "obj list \<Rightarrow> error + PersistentVolume list" where
  "assertVolumes [] = Inr []"
| "assertVolumes (VolumeObj pv # objs) =
     (case assertVolumes objs of Inl err \<Rightarrow> Inl err | Inr volumes \<Rightarrow> Inr (pv # volumes))"
| "assertVolumes (NilVolumeObj # objs) = Inl NilPointerPanic"
| "assertVolumes (obj # objs) = Inl (TypeAssertionPanic obj)"

type_synonym Sorter =
  "PersistentVolume list Interface \<Rightarrow> PersistentVolume list \<Rightarrow> PersistentVolume list"

definition ListByAccessModes ::
  "(AccessModeType list \<Rightarrow> string) \<Rightarrow> Sorter \<Rightarrow> Indexer \<Rightarrow> AccessModeType list
     \<Rightarrow> error + PersistentVolume list" where
  "ListByAccessModes sig srt pvIndex modes =
     (let pv = \<lparr>Name = [], Spec = \<lparr>Capacity = Map.empty, AccessModes = modes, ClaimRef = None\<rparr>\<rparr>
      in case Index (accessModesIndexFunc sig) pvIndex (VolumeObj pv) of
           Inl err \<Rightarrow> Inl err
         | Inr objs \<Rightarrow>
             (case assertVolumes objs of
                Inl err \<Rightarrow> Inl err
              | Inr volumes \<Rightarrow> Inr (srt byCapacity volumes)))"

type_synonym matchPredicate = "PersistentVolume \<Rightarrow> PersistentVolume \<Rightarrow> bool"

definition Find ::
  "(AccessModeType list \<Rightarrow> string) \<Rightarrow> Sorter \<Rightarrow> Indexer \<Rightarrow> PersistentVolume \<Rightarrow> matchPredicate
     \<Rightarrow> error + PersistentVolume option" where
  "Find sig srt pvIndex pv matchPredicate =
     (case ListByAccessModes sig srt pvIndex (AccessModes (Spec pv)) of
        Inl err \<Rightarrow> Inl err
      | Inr volumes \<Rightarrow>
          (let i = Search (length volumes) (\<lambda>i. matchPredicate pv (volumes ! i))
           in if i < length volumes then Inr (Some (volumes ! i)) else Inr None))"

definition FindByAccessModesAndStorageCapacity ::
  "(AccessModeType list \<Rightarrow> string) \<Rightarrow> Sorter \<Rightarrow> Indexer \<Rightarrow> AccessModeType list \<Rightarrow> Quantity
     \<Rightarrow> error + PersistentVolume option" where
  "FindByAccessModesAndStorageCapacity sig srt pvIndex modes qty =
     (let pv = \<lparr>Name = [],
                Spec = \<lparr>Capacity = [ResourceStorage \<mapsto> qty], AccessModes = modes, ClaimRef = None\<rparr>\<rparr>
      in Find sig srt pvIndex pv filterBoundVolumes)"

definition FindBestMatchForClaim ::
  "(AccessModeType list \<Rightarrow> string) \<Rightarrow> Sorter \<Rightarrow> Indexer \<Rightarrow> PersistentVolumeClaim
     \<Rightarrow> error + PersistentVolume option" where
  "FindBestMatchForClaim sig srt pvIndex claim =
     FindByAccessModesAndStorageCapacity sig srt pvIndex (ClaimAccessModes (ClaimSpec claim))
       (lookup (Requests (Resources (ClaimSpec claim))) ResourceStorage)"

text \<open>
  \<^verbatim>\<open>cache.Indexer\<close> is an interface, and \<^verbatim>\<open>ListByAccessModes\<close> and \<^verbatim>\<open>Find\<close> are written
  against any implementation of it. Here they are over an arbitrary lookup \<open>index\<close>, the
  implementation's \<^verbatim>\<open>Index("accessmodes", obj)\<close>, which may report an error of its own;
  the functions above are these at the lookup of the modelled store.
\<close>

definition ListByAccessModes_over ::
  "(obj \<Rightarrow> error + obj list) \<Rightarrow> Sorter \<Rightarrow> AccessModeType list \<Rightarrow> error + PersistentVolume list" where
  "ListByAccessModes_over index srt modes =
     (let pv = \<lparr>Name = [], Spec = \<lparr>Capacity = Map.empty, AccessModes = modes, ClaimRef = None\<rparr>\<rparr>
      in case index (VolumeObj pv) of
           Inl err \<Rightarrow> Inl err
         | Inr objs \<Rightarrow>
             (case assertVolumes objs of
                Inl err \<Rightarrow> Inl err
              | Inr volumes \<Rightarrow> Inr (srt byCapacity volumes)))"

definition Find_over ::
  "(obj \<Rightarrow> error + obj list) \<Rightarrow> Sorter \<Rightarrow> PersistentVolume \<Rightarrow> matchPredicate
     \<Rightarrow> error + PersistentVolume option" where
  "Find_over index srt pv matchPredicate =
     (case ListByAccessModes_over index srt (AccessModes (Spec pv)) of
        Inl err \<Rightarrow> Inl err
      | Inr volumes \<Rightarrow>
          (let i = Search (length volumes) (\<lambda>i. matchPredicate pv (volumes ! i))
           in if i < length volumes then Inr (Some (volumes ! i)) else Inr None))"

section \<open>The candidates of a query\<close>

text \<open>
  What the claims call the unsorted candidate sequence: the volumes of the store, in the
  store's order, whose signature equals that of the requested access modes.
\<close>

fun volumesIn :: "obj list \<Rightarrow> PersistentVolume list" where
  "volumesIn [] = []"
| "volumesIn (VolumeObj pv # objs) = pv # volumesIn objs"
| "volumesIn (obj # objs) = volumesIn objs"

definition candidates ::
  "(AccessModeType list \<Rightarrow> string) \<Rightarrow> Indexer \<Rightarrow> AccessModeType list \<Rightarrow> PersistentVolume list" where
  "candidates sig pvIndex modes =
     filter (\<lambda>pv. sig (AccessModes (Spec pv)) = sig modes) (volumesIn pvIndex)"

text \<open>The storage size that \<^verbatim>\<open>matchStorageCapacity\<close> compares.\<close>

definition storageSize :: "PersistentVolume \<Rightarrow> int" where
  "storageSize pv = Value (lookup (Capacity (Spec pv)) ResourceStorage)"

text \<open>
  The inner loop of \<^verbatim>\<open>insertionSort\<close> under \<^verbatim>\<open>byCapacity\<close>, read on lists: \<open>ys\<close> is the part
  of the slice before position \<open>j\<close>, last element first, and \<open>x\<close> the element at \<open>j\<close>, which
  moves towards the front as long as \<^verbatim>\<open>Less\<close> holds between it and its left neighbour.
\<close>

fun sinkInto :: "PersistentVolume \<Rightarrow> PersistentVolume list \<Rightarrow> PersistentVolume list" where
  "sinkInto x [] = [x]"
| "sinkInto x (y # ys) = (if matchStorageCapacity x y then y # sinkInto x ys else x # y # ys)"

section \<open>Queries as state transformers\<close>

text \<open>
  The same four queries with the memory they work on made explicit. The world is the
  store together with the backing arrays of the volume slices allocated so far; a slice
  is named by the position of its array. \<^verbatim>\<open>make\<close> in \<^verbatim>\<open>ListByAccessModes\<close> appends a new
  array, the loop fills it with the asserted pointers, and \<^verbatim>\<open>sort.Sort\<close> permutes that
  array in place: the array at \<open>volumes\<close> is overwritten with the sorted one. \<open>Index\<close> only
  reads the store (see above).
\<close>

record World =
  indexer :: Indexer
  slices :: "PersistentVolume list list"

definition ListByAccessModes_st ::
  "(AccessModeType list \<Rightarrow> string) \<Rightarrow> Sorter \<Rightarrow> AccessModeType list \<Rightarrow> World
     \<Rightarrow> (error + nat) \<times> World" where
  "ListByAccessModes_st sig srt modes w =
     (let pv = \<lparr>Name = [], Spec = \<lparr>Capacity = Map.empty, AccessModes = modes, ClaimRef = None\<rparr>\<rparr>
      in case Index (accessModesIndexFunc sig) (indexer w) (VolumeObj pv) of
           Inl err \<Rightarrow> (Inl err, w)
         | Inr objs \<Rightarrow>
             (case assertVolumes objs of
                Inl err \<Rightarrow> (Inl err, w)
              | Inr asserted \<Rightarrow>
                  (let volumes = length (slices w);
                       w1 = w\<lparr>slices := slices w @ [asserted]\<rparr>;
                       w2 = w1\<lparr>slices := (slices w1)[volumes := srt byCapacity (slices w1 ! volumes)]\<rparr>
                   in (Inr volumes, w2))))"

definition Find_st ::
  "(AccessModeType list \<Rightarrow> string) \<Rightarrow> Sorter \<Rightarrow> PersistentVolume \<Rightarrow> matchPredicate \<Rightarrow> World
     \<Rightarrow> (error + PersistentVolume option) \<times> World" where
  "Find_st sig srt pv matchPredicate w =
     (case ListByAccessModes_st sig srt (AccessModes (Spec pv)) w of
        (Inl err, w') \<Rightarrow> (Inl err, w')
      | (Inr volumes, w') \<Rightarrow>
          (let vs = slices w' ! volumes;
               i = Search (length vs) (\<lambda>i. matchPredicate pv (vs ! i))
           in (if i < length vs then Inr (Some (vs ! i)) else Inr None, w')))"

definition FindByAccessModesAndStorageCapacity_st ::
  "(AccessModeType list \<Rightarrow> string) \<Rightarrow> Sorter \<Rightarrow> AccessModeType list \<Rightarrow> Quantity \<Rightarrow> World
     \<Rightarrow> (error + PersistentVolume option) \<times> World" where
  "FindByAccessModesAndStorageCapacity_st sig srt modes qty w =
     (let pv = \<lparr>Name = [],
                Spec = \<lparr>Capacity = [ResourceStorage \<mapsto> qty], AccessModes = modes, ClaimRef = None\<rparr>\<rparr>
      in Find_st sig srt pv filterBoundVolumes w)"

definition FindBestMatchForClaim_st ::
  "(AccessModeType list \<Rightarrow> string) \<Rightarrow> Sorter \<Rightarrow> PersistentVolumeClaim \<Rightarrow> World
     \<Rightarrow> (error + PersistentVolume option) \<times> World" where
  "FindBestMatchForClaim_st sig srt claim w =
     FindByAccessModesAndStorageCapacity_st sig srt (ClaimAccessModes (ClaimSpec claim))
       (lookup (Requests (Resources (ClaimSpec claim))) ResourceStorage) w"

text \<open>What a query leaves as it was: the store, and every array allocated before the
  query.\<close>

definition unchanged :: "World \<Rightarrow> World \<Rightarrow> bool" where
  "unchanged w w' \<longleftrightarrow>
     indexer w' = indexer w \<and> take (length (slices w)) (slices w') = slices w"

section \<open>Volumes and claims for the examples\<close>

definition Gi :: int where
  "Gi = 1024 * 1024 * 1024"

definition storage :: "int \<Rightarrow> ResourceList" where
  "storage n = [ResourceStorage \<mapsto> Quantity (Some n)]"

definition rwoVolume :: "string \<Rightarrow> ResourceList \<Rightarrow> ObjectReference option \<Rightarrow> PersistentVolume" where
  "rwoVolume name capacity ref =
     \<lparr>Name = name,
      Spec = \<lparr>Capacity = capacity, AccessModes = [''ReadWriteOnce''], ClaimRef = ref\<rparr>\<rparr>"

definition rwoRoxVolume :: "string \<Rightarrow> ResourceList \<Rightarrow> ObjectReference option \<Rightarrow> PersistentVolume" where
  "rwoRoxVolume name capacity ref =
     \<lparr>Name = name,
      Spec = \<lparr>Capacity = capacity, AccessModes = [''ReadWriteOnce'', ''ReadOnlyMany''], ClaimRef = ref\<rparr>\<rparr>"

definition rwoClaim :: "ResourceList \<Rightarrow> PersistentVolumeClaim" where
  "rwoClaim requests =
     \<lparr>ClaimName = ''claim-1'',
      ClaimSpec = \<lparr>ClaimAccessModes = [''ReadWriteOnce''], Resources = \<lparr>Requests = requests\<rparr>\<rparr>\<rparr>"

definition claim0 :: "ObjectReference option" where
  "claim0 = Some (ObjectReference ''claim-0'')"

text \<open>A lookup that fails, as that of a store in which the index is not registered.\<close>

definition failingIndex :: "obj \<Rightarrow> error + obj list" where
  "failingIndex obj = Inl (LookupFailure ''Index with name accessmodes does not exist'')"

section \<open>Evaluation\<close>

text \<open>The equations by which the closed theorems below are evaluated.\<close>

lemmas query_defs =
  FindBestMatchForClaim_def FindByAccessModesAndStorageCapacity_def Find_def ListByAccessModes_def
  Index_def Search_def Search_loop.simps
  Sort_short_def insertionSort_def byCapacity_def byCapacity_Len_def byCapacity_Less_def byCapacity_Swap_def
  matchStorageCapacity_def filterBoundVolumes_def lookup_def Value_def ResourceStorage_def storageSize_def
  candidates_def GetAccessModesAsString_def Gi_def storage_def rwoVolume_def rwoClaim_def claim0_def rwoRoxVolume_def Let_def

section \<open>The binary search\<close>

text \<open>
  \<^verbatim>\<open>Search\<close> stays within \<open>0..n\<close>; a result below \<open>n\<close> is a position at which the predicate was
  seen to hold, whatever the predicate; a predicate that holds nowhere gives \<open>n\<close>; and when
  the predicate is monotone, it fails at every position before the result.
\<close>

lemma Search_loop_done: "\<not> i < j \<Longrightarrow> Search_loop f i j = i"
  by (subst Search_loop.simps) simp

lemma Search_loop_bounds: "i \<le> j \<Longrightarrow> i \<le> Search_loop f i j \<and> Search_loop f i j \<le> j"
proof (induction f i j rule: Search_loop.induct)
  case (1 f i j)
  show ?case
  proof (cases "i < j")
    case False
    with "1.prems" show ?thesis by (simp add: Search_loop_done)
  next
    case True
    define h where "h = i + (j - i) div 2"
    have hb: "i \<le> h" "h < j" using True by (auto simp: h_def)
    show ?thesis
    proof (cases "f h")
      case True
      have "Search_loop f i j = Search_loop f i h"
        using \<open>i < j\<close> True by (subst Search_loop.simps) (simp add: h_def Let_def)
      moreover have "i \<le> Search_loop f i h \<and> Search_loop f i h \<le> h"
        using "1.IH"(2)[OF \<open>i < j\<close> h_def] True hb by simp
      ultimately show ?thesis using hb by simp
    next
      case False
      have "Search_loop f i j = Search_loop f (h + 1) j"
        using \<open>i < j\<close> False by (subst Search_loop.simps) (simp add: h_def Let_def)
      moreover have "h + 1 \<le> Search_loop f (h + 1) j \<and> Search_loop f (h + 1) j \<le> j"
        using "1.IH"(1)[OF \<open>i < j\<close> h_def] False hb by simp
      ultimately show ?thesis using hb by simp
    qed
  qed
qed

lemma Search_loop_hit: "i \<le> j \<Longrightarrow> Search_loop f i j \<noteq> j \<Longrightarrow> f (Search_loop f i j)"
proof (induction f i j rule: Search_loop.induct)
  case (1 f i j)
  show ?case
  proof (cases "i < j")
    case False
    with "1.prems" show ?thesis by (simp add: Search_loop_done)
  next
    case True
    define h where "h = i + (j - i) div 2"
    have hb: "i \<le> h" "h < j" using True by (auto simp: h_def)
    show ?thesis
    proof (cases "f h")
      case True
      have eq: "Search_loop f i j = Search_loop f i h"
        using \<open>i < j\<close> True by (subst Search_loop.simps) (simp add: h_def Let_def)
      show ?thesis
      proof (cases "Search_loop f i h = h")
        case True
        with eq \<open>f h\<close> show ?thesis by simp
      next
        case False
        then have "f (Search_loop f i h)"
          using "1.IH"(2)[OF \<open>i < j\<close> h_def] True hb by simp
        with eq show ?thesis by simp
      qed
    next
      case False
      have eq: "Search_loop f i j = Search_loop f (h + 1) j"
        using \<open>i < j\<close> False by (subst Search_loop.simps) (simp add: h_def Let_def)
      have "f (Search_loop f (h + 1) j)"
        using "1.IH"(1)[OF \<open>i < j\<close> h_def] False hb "1.prems"(2) eq by simp
      with eq show ?thesis by simp
    qed
  qed
qed

lemma Search_loop_miss: "i \<le> j \<Longrightarrow> (\<And>k. i \<le> k \<Longrightarrow> k < j \<Longrightarrow> \<not> f k) \<Longrightarrow> Search_loop f i j = j"
proof (induction f i j rule: Search_loop.induct)
  case (1 f i j)
  show ?case
  proof (cases "i < j")
    case False
    with "1.prems" show ?thesis by (simp add: Search_loop_done)
  next
    case True
    define h where "h = i + (j - i) div 2"
    have hb: "i \<le> h" "h < j" using True by (auto simp: h_def)
    have nf: "\<not> f h" using "1.prems"(2) hb by simp
    have eq: "Search_loop f i j = Search_loop f (h + 1) j"
      using \<open>i < j\<close> nf by (subst Search_loop.simps) (simp add: h_def Let_def)
    have "Search_loop f (h + 1) j = j"
      using "1.IH"(1)[OF \<open>i < j\<close> h_def nf] hb "1.prems"(2) by simp
    with eq show ?thesis by simp
  qed
qed

lemma Search_le: "Search n f \<le> n"
  using Search_loop_bounds[of 0 n f] by (simp add: Search_def)

lemma Search_hit: "Search n f < n \<Longrightarrow> f (Search n f)"
  using Search_loop_hit[of 0 n f] by (simp add: Search_def)

lemma Search_miss: "(\<And>k. k < n \<Longrightarrow> \<not> f k) \<Longrightarrow> Search n f = n"
  using Search_loop_miss[of 0 n f] by (simp add: Search_def)

lemma Search_loop_below:
  "(\<forall>a b. a \<le> b \<and> b < n \<and> f a \<longrightarrow> f b) \<Longrightarrow> i \<le> j \<Longrightarrow> j \<le> n \<Longrightarrow>
     (\<forall>k < i. \<not> f k) \<Longrightarrow> \<forall>k < Search_loop f i j. \<not> f k"
proof (induction f i j rule: Search_loop.induct)
  case (1 f i j)
  show ?case
  proof (cases "i < j")
    case False
    with "1.prems" show ?thesis by (simp add: Search_loop_done)
  next
    case True
    define h where "h = i + (j - i) div 2"
    have hb: "i \<le> h" "h < j" using True by (auto simp: h_def)
    show ?thesis
    proof (cases "f h")
      case True
      have eq: "Search_loop f i j = Search_loop f i h"
        using \<open>i < j\<close> True by (subst Search_loop.simps) (simp add: h_def Let_def)
      have "h \<le> n" using hb "1.prems"(3) by simp
      have nn: "\<not> \<not> f h" using True by simp
      have "\<forall>k < Search_loop f i h. \<not> f k"
        by (rule "1.IH"(2)[OF \<open>i < j\<close> h_def nn "1.prems"(1) hb(1) \<open>h \<le> n\<close> "1.prems"(4)])
      then show ?thesis unfolding eq .
    next
      case False
      have eq: "Search_loop f i j = Search_loop f (h + 1) j"
        using \<open>i < j\<close> False by (subst Search_loop.simps) (simp add: h_def Let_def)
      have below: "\<forall>k' < h + 1. \<not> f k'"
      proof (intro allI impI notI)
        fix k' assume "k' < h + 1" "f k'"
        moreover have "h < n" using hb "1.prems"(3) by simp
        ultimately have "f h" using "1.prems"(1) by (metis Suc_eq_plus1 less_Suc_eq_le)
        with False show False by simp
      qed
      have "h + 1 \<le> j" using hb by simp
      have "\<forall>k < Search_loop f (h + 1) j. \<not> f k"
        by (rule "1.IH"(1)[OF \<open>i < j\<close> h_def False "1.prems"(1) \<open>h + 1 \<le> j\<close> "1.prems"(3) below])
      then show ?thesis unfolding eq .
    qed
  qed
qed

lemma Search_below:
  assumes "\<And>a b. a \<le> b \<Longrightarrow> b < n \<Longrightarrow> f a \<Longrightarrow> f b" and "k < Search n f"
  shows "\<not> f k"
proof -
  have "\<forall>a b. a \<le> b \<and> b < n \<and> f a \<longrightarrow> f b" using assms(1) by blast
  then have "\<forall>k < Search_loop f 0 n. \<not> f k"
    by (rule Search_loop_below) simp_all
  with assms(2) show ?thesis unfolding Search_def by blast
qed

section \<open>What the queries compute\<close>

text \<open>
  The lookup never fails on the probe of \<^verbatim>\<open>ListByAccessModes\<close>, which is a volume, and it
  returns volumes only, so that the type assertion does not panic: the list is the sorted
  candidate sequence.
\<close>

lemma assertVolumes_filter:
  "assertVolumes (filter (\<lambda>item. case accessModesIndexFunc sig item of Inl _ \<Rightarrow> False | Inr k \<Rightarrow> k = key) store)
     = Inr (filter (\<lambda>pv. sig (AccessModes (Spec pv)) = key) (volumesIn store))"
proof (induction store)
  case Nil
  show ?case by simp
next
  case (Cons item store)
  show ?case
  proof (cases item)
    case (VolumeObj pv)
    with Cons show ?thesis by simp
  next
    case NilVolumeObj
    with Cons show ?thesis by simp
  next
    case (ClaimObj c)
    with Cons show ?thesis by simp
  next
    case (OtherObj s)
    with Cons show ?thesis by simp
  qed
qed

lemma ListByAccessModes_eq:
  "ListByAccessModes sig srt pvIndex modes = Inr (srt byCapacity (candidates sig pvIndex modes))"
  by (simp add: ListByAccessModes_def Index_def candidates_def assertVolumes_filter)

lemma volumesIn_set: "pv \<in> set (volumesIn store) \<longleftrightarrow> VolumeObj pv \<in> set store"
  by (induction store rule: volumesIn.induct) auto

lemma Find_eq:
  "Find sig srt pvIndex pv p =
     (let volumes = srt byCapacity (candidates sig pvIndex (AccessModes (Spec pv)));
          i = Search (length volumes) (\<lambda>i. p pv (volumes ! i))
      in if i < length volumes then Inr (Some (volumes ! i)) else Inr None)"
  by (simp add: Find_def ListByAccessModes_eq Let_def)

lemma ListByAccessModes_over_Index:
  "ListByAccessModes_over (Index (accessModesIndexFunc sig) pvIndex) srt modes
     = ListByAccessModes sig srt pvIndex modes"
  by (simp add: ListByAccessModes_over_def ListByAccessModes_def)

lemma Find_over_Index:
  "Find_over (Index (accessModesIndexFunc sig) pvIndex) srt pv matchPredicate
     = Find sig srt pvIndex pv matchPredicate"
  by (simp add: Find_over_def Find_def ListByAccessModes_over_Index)

lemma Find_Some:
  assumes "Find sig srt pvIndex pv p = Inr (Some v)"
  shows "p pv v \<and> v \<in> set (srt byCapacity (candidates sig pvIndex (AccessModes (Spec pv))))"
proof -
  define volumes where "volumes = srt byCapacity (candidates sig pvIndex (AccessModes (Spec pv)))"
  define i where "i = Search (length volumes) (\<lambda>i. p pv (volumes ! i))"
  from assms have lt: "i < length volumes" and v: "v = volumes ! i"
    by (auto simp: Find_eq Let_def volumes_def i_def split: if_splits)
  from lt have "p pv (volumes ! i)"
    unfolding i_def by (rule Search_hit)
  with lt v show ?thesis by (simp add: volumes_def)
qed

lemma Find_None:
  assumes "\<And>v. v \<in> set (srt byCapacity (candidates sig pvIndex (AccessModes (Spec pv)))) \<Longrightarrow> \<not> p pv v"
  shows "Find sig srt pvIndex pv p = Inr None"
proof -
  define volumes where "volumes = srt byCapacity (candidates sig pvIndex (AccessModes (Spec pv)))"
  have "Search (length volumes) (\<lambda>i. p pv (volumes ! i)) = length volumes"
    by (rule Search_miss) (simp add: assms volumes_def)
  then show ?thesis by (simp add: Find_eq Let_def volumes_def)
qed

lemma matchStorageCapacity_unbound:
  "ClaimRef (Spec a) = None \<Longrightarrow> matchStorageCapacity a b \<longleftrightarrow> storageSize a \<le> storageSize b"
  by (simp add: matchStorageCapacity_def storageSize_def)

lemma filterBoundVolumes_probe:
  "ClaimRef (Spec pv) = None \<Longrightarrow> ClaimRef (Spec v) = None \<Longrightarrow>
     filterBoundVolumes pv v \<longleftrightarrow> storageSize pv \<le> storageSize v"
  by (simp add: filterBoundVolumes_def matchStorageCapacity_unbound)

lemma filterBoundVolumes_imp:
  "filterBoundVolumes pv v \<Longrightarrow> ClaimRef (Spec v) = None \<and> ClaimRef (Spec pv) = None \<and> storageSize pv \<le> storageSize v"
  by (simp add: filterBoundVolumes_def matchStorageCapacity_def storageSize_def Let_def split: if_splits)

lemma ListByAccessModes_st_eq:
  "ListByAccessModes_st sig srt modes w =
     (Inr (length (slices w)),
      w\<lparr>slices := slices w @ [srt byCapacity (candidates sig (indexer w) modes)]\<rparr>)"
  by (simp add: ListByAccessModes_st_def Index_def candidates_def assertVolumes_filter Let_def)

lemma Find_st_eq:
  "Find_st sig srt pv p w =
     (Find sig srt (indexer w) pv p,
      w\<lparr>slices := slices w @ [srt byCapacity (candidates sig (indexer w) (AccessModes (Spec pv)))]\<rparr>)"
  by (simp add: Find_st_def ListByAccessModes_st_eq Find_eq Let_def)

lemma unchanged_append: "unchanged w (w\<lparr>slices := slices w @ new\<rparr>)"
  by (simp add: unchanged_def)

lemma ListByAccessModes_st_result:
  "ListByAccessModes_st sig srt modes w = (Inr a, w') \<Longrightarrow>
     ListByAccessModes sig srt (indexer w) modes = Inr (slices w' ! a)"
  by (auto simp: ListByAccessModes_st_eq ListByAccessModes_eq)

section \<open>The insertion sort under \<open>byCapacity\<close>\<close>

text \<open>
  The sort returns a permutation of the slice. Read on lists, it sinks the elements one
  after the other into the reversed prefix; on a slice without bound volumes the result
  is in ascending order of storage size.
\<close>

lemma byCapacity_simps:
  "Len byCapacity = length" "Less byCapacity = byCapacity_Less" "Swap byCapacity = byCapacity_Swap"
  by (simp_all add: byCapacity_def byCapacity_Len_def fun_eq_iff)

lemma byCapacity_Swap_perm:
  "i < length volumes \<Longrightarrow> j < length volumes \<Longrightarrow>
     mset (byCapacity_Swap volumes i j) = mset volumes \<and> length (byCapacity_Swap volumes i j) = length volumes"
  by (simp add: byCapacity_Swap_def mset_swap)

lemma insertionSort_inner_perm:
  "k < length volumes \<Longrightarrow>
     mset (insertionSort_inner byCapacity a k volumes) = mset volumes
     \<and> length (insertionSort_inner byCapacity a k volumes) = length volumes"
proof (induction k arbitrary: volumes)
  case 0
  show ?case by simp
next
  case (Suc k)
  have sw: "mset (byCapacity_Swap volumes (Suc k) k) = mset volumes"
           "length (byCapacity_Swap volumes (Suc k) k) = length volumes"
    using byCapacity_Swap_perm[of "Suc k" volumes k] Suc.prems by simp_all
  with Suc.prems have "k < length (byCapacity_Swap volumes (Suc k) k)" by simp
  from Suc.IH[OF this] sw show ?case by (simp add: byCapacity_simps)
qed

lemma fold_insertionSort_inner_perm:
  "(\<And>i. i \<in> set is \<Longrightarrow> i < length volumes) \<Longrightarrow>
     mset (fold (insertionSort_inner byCapacity a) is volumes) = mset volumes
     \<and> length (fold (insertionSort_inner byCapacity a) is volumes) = length volumes"
proof (induction "is" arbitrary: volumes)
  case Nil
  show ?case by simp
next
  case (Cons i "is")
  have step: "mset (insertionSort_inner byCapacity a i volumes) = mset volumes"
             "length (insertionSort_inner byCapacity a i volumes) = length volumes"
    using insertionSort_inner_perm[of i volumes a] Cons.prems by simp_all
  have "\<And>j. j \<in> set is \<Longrightarrow> j < length (insertionSort_inner byCapacity a i volumes)"
    using Cons.prems step by simp
  from Cons.IH[OF this] step show ?case by simp
qed

lemma Sort_short_perm: "mset (Sort_short byCapacity volumes) = mset volumes"
  using fold_insertionSort_inner_perm[of "[0 + 1..<length volumes]" volumes 0]
  by (simp add: Sort_short_def insertionSort_def byCapacity_simps Let_def)

lemma length_sinkInto: "length (sinkInto x ys) = Suc (length ys)"
  by (induction ys) simp_all

lemma set_sinkInto: "set (sinkInto x ys) = insert x (set ys)"
  by (induction ys) auto

lemma insertionSort_inner_sinkInto:
  "insertionSort_inner byCapacity 0 (length ys) (rev ys @ x # post) = rev (sinkInto x ys) @ post"
proof (induction ys arbitrary: post)
  case Nil
  show ?case by simp
next
  case (Cons y ys)
  let ?data = "rev (y # ys) @ x # post"
  have at_j: "?data ! Suc (length ys) = x"
    using nth_append_length[of "rev ys @ [y]" x post] by simp
  have at_j1: "?data ! length ys = y"
    using nth_append_length[of "rev ys" y "x # post"] by simp
  have sw: "byCapacity_Swap ?data (Suc (length ys)) (length ys) = rev ys @ x # y # post"
  proof -
    have "?data[Suc (length ys) := y] = rev ys @ y # y # post"
      using list_update_length[of "rev ys @ [y]" x post y] by simp
    moreover have "(rev ys @ y # y # post)[length ys := x] = rev ys @ x # y # post"
      using list_update_length[of "rev ys" y "y # post" x] by simp
    ultimately show ?thesis
      unfolding byCapacity_Swap_def at_j at_j1 by simp
  qed
  show ?case
  proof (cases "matchStorageCapacity x y")
    case True
    have "insertionSort_inner byCapacity 0 (length (y # ys)) ?data
            = insertionSort_inner byCapacity 0 (length ys) (rev ys @ x # y # post)"
      using True at_j at_j1 sw by (simp add: byCapacity_simps byCapacity_Less_def)
    also have "\<dots> = rev (sinkInto x ys) @ y # post"
      by (rule Cons.IH)
    finally show ?thesis using True by simp
  next
    case False
    have "insertionSort_inner byCapacity 0 (length (y # ys)) ?data = ?data"
      using False at_j at_j1 by (simp add: byCapacity_simps byCapacity_Less_def)
    then show ?thesis using False by simp
  qed
qed

lemma length_foldl_sinkInto:
  "length (foldl (\<lambda>acc x. sinkInto x acc) acc xs) = length acc + length xs"
  by (induction xs arbitrary: acc) (simp_all add: length_sinkInto)

lemma set_foldl_sinkInto:
  "set (foldl (\<lambda>acc x. sinkInto x acc) acc xs) = set acc \<union> set xs"
  by (induction xs arbitrary: acc) (simp_all add: set_sinkInto)

lemma fold_insertionSort_inner:
  "Suc i \<le> length xs \<Longrightarrow>
     fold (insertionSort_inner byCapacity 0) [1..<Suc i] xs
       = rev (foldl (\<lambda>acc x. sinkInto x acc) [] (take (Suc i) xs)) @ drop (Suc i) xs"
proof (induction i)
  case 0
  then obtain x rest where "xs = x # rest" by (cases xs) auto
  then show ?case by simp
next
  case (Suc i)
  define acc where "acc = foldl (\<lambda>acc x. sinkInto x acc) [] (take (Suc i) xs)"
  have len: "length acc = Suc i"
    using Suc.prems by (simp add: acc_def length_foldl_sinkInto)
  have drop: "drop (Suc i) xs = xs ! Suc i # drop (Suc (Suc i)) xs"
    using Suc.prems by (simp add: Cons_nth_drop_Suc)
  have take: "take (Suc (Suc i)) xs = take (Suc i) xs @ [xs ! Suc i]"
    using Suc.prems by (simp add: take_Suc_conv_app_nth)
  have "fold (insertionSort_inner byCapacity 0) [1..<Suc (Suc i)] xs
          = insertionSort_inner byCapacity 0 (Suc i) (fold (insertionSort_inner byCapacity 0) [1..<Suc i] xs)"
    by simp
  also have "\<dots> = insertionSort_inner byCapacity 0 (length acc) (rev acc @ xs ! Suc i # drop (Suc (Suc i)) xs)"
    using Suc.IH Suc.prems by (simp add: acc_def[symmetric] len drop)
  also have "\<dots> = rev (sinkInto (xs ! Suc i) acc) @ drop (Suc (Suc i)) xs"
    by (rule insertionSort_inner_sinkInto)
  also have "sinkInto (xs ! Suc i) acc = foldl (\<lambda>acc x. sinkInto x acc) [] (take (Suc (Suc i)) xs)"
    by (simp add: take acc_def)
  finally show ?case .
qed

lemma Sort_short_byCapacity:
  "Sort_short byCapacity volumes = rev (foldl (\<lambda>acc x. sinkInto x acc) [] volumes)"
proof (cases volumes)
  case Nil
  then show ?thesis by (simp add: Sort_short_def byCapacity_simps)
next
  case (Cons x rest)
  show ?thesis
  proof (cases rest)
    case Nil
    with Cons show ?thesis by (simp add: Sort_short_def byCapacity_simps)
  next
    case (Cons y rest')
    obtain i where i: "length volumes = Suc i"
      using \<open>volumes = x # rest\<close> by simp
    have "Sort_short byCapacity volumes = fold (insertionSort_inner byCapacity 0) [1..<Suc i] volumes"
      using i Cons \<open>volumes = x # rest\<close> by (simp add: Sort_short_def insertionSort_def byCapacity_simps)
    also have "\<dots> = rev (foldl (\<lambda>acc x. sinkInto x acc) [] (take (Suc i) volumes)) @ drop (Suc i) volumes"
      using i by (intro fold_insertionSort_inner) simp
    finally show ?thesis using i by simp
  qed
qed

lemma sinkInto_descending:
  assumes "ClaimRef (Spec x) = None"
      and "sorted_wrt (\<lambda>a b. storageSize b \<le> storageSize a) ys"
  shows "sorted_wrt (\<lambda>a b. storageSize b \<le> storageSize a) (sinkInto x ys)"
  using assms(2)
proof (induction ys)
  case Nil
  show ?case by simp
next
  case (Cons y ys)
  show ?case
  proof (cases "storageSize x \<le> storageSize y")
    case True
    with Cons assms(1) show ?thesis
      by (auto simp: matchStorageCapacity_unbound set_sinkInto)
  next
    case False
    with Cons.prems assms(1) show ?thesis
      by (fastforce simp: matchStorageCapacity_unbound)
  qed
qed

lemma foldl_sinkInto_descending:
  "\<forall>v \<in> set xs. ClaimRef (Spec v) = None \<Longrightarrow>
   sorted_wrt (\<lambda>a b. storageSize b \<le> storageSize a) acc \<Longrightarrow>
   sorted_wrt (\<lambda>a b. storageSize b \<le> storageSize a) (foldl (\<lambda>acc x. sinkInto x acc) acc xs)"
  by (induction xs arbitrary: acc) (simp_all add: sinkInto_descending)

lemma Sort_short_ascending:
  assumes "\<forall>v \<in> set volumes. ClaimRef (Spec v) = None"
  shows "sorted_wrt (\<lambda>a b. storageSize a \<le> storageSize b) (Sort_short byCapacity volumes)"
  using foldl_sinkInto_descending[OF assms, of "[]"]
  by (simp add: Sort_short_byCapacity sorted_wrt_rev)

section \<open>A partition without bound volumes\<close>

text \<open>
  When no candidate is bound, the list of \<^verbatim>\<open>ListByAccessModes\<close> is ascending (here for the
  insertion sort); and when the sorted list is ascending, the predicate of the search is
  monotone along the list, and \<^verbatim>\<open>FindBestMatchForClaim\<close> returns a candidate of
  least storage size among those that are large enough, or nil when none is.
\<close>

lemma ListByAccessModes_ascending_unbound:
  assumes "\<forall>v \<in> set (candidates sig pvIndex modes). ClaimRef (Spec v) = None"
  shows "\<exists>volumes. ListByAccessModes sig Sort_short pvIndex modes = Inr volumes
           \<and> sorted_wrt (\<lambda>a b. storageSize a \<le> storageSize b) volumes"
  using Sort_short_ascending[OF assms] by (simp add: ListByAccessModes_eq)

lemma Find_ascending:
  assumes unbound: "\<forall>v \<in> set volumes. ClaimRef (Spec v) = None"
      and probe: "ClaimRef (Spec pv) = None"
      and asc: "sorted_wrt (\<lambda>a b. storageSize a \<le> storageSize b) volumes"
      and i: "i = Search (length volumes) (\<lambda>i. filterBoundVolumes pv (volumes ! i))"
  shows "if i < length volumes
         then storageSize pv \<le> storageSize (volumes ! i)
              \<and> (\<forall>u \<in> set volumes. storageSize pv \<le> storageSize u
                     \<longrightarrow> storageSize (volumes ! i) \<le> storageSize u)
         else (\<forall>u \<in> set volumes. storageSize u < storageSize pv)"
proof -
  let ?f = "\<lambda>i. filterBoundVolumes pv (volumes ! i)"
  have f: "?f k \<longleftrightarrow> storageSize pv \<le> storageSize (volumes ! k)" if "k < length volumes" for k
    using that unbound probe by (simp add: filterBoundVolumes_probe)
  have mono: "?f b" if "a \<le> b" "b < length volumes" "?f a" for a b
  proof (cases "a = b")
    case True
    with that show ?thesis by simp
  next
    case False
    with that have "a < b" by simp
    then have "storageSize (volumes ! a) \<le> storageSize (volumes ! b)"
      using sorted_wrt_nth_less[OF asc, of a b] that(2) by simp
    moreover have "storageSize pv \<le> storageSize (volumes ! a)"
      using that f[of a] by simp
    ultimately show ?thesis using f[of b] that(2) by simp
  qed
  have below: "\<not> ?f k" if "k < i" for k
    using Search_below[of "length volumes" ?f k] mono that i by blast
  have le: "i \<le> length volumes" using i by (simp add: Search_le)
  show ?thesis
  proof (cases "i < length volumes")
    case True
    have hit: "?f i" using True i Search_hit[of "length volumes" ?f] by simp
    have least: "storageSize (volumes ! i) \<le> storageSize u"
      if "u \<in> set volumes" "storageSize pv \<le> storageSize u" for u
    proof -
      from that(1) obtain k where k: "k < length volumes" "u = volumes ! k"
        by (auto simp: in_set_conv_nth)
      with that(2) have "?f k" by (simp add: f)
      with below have "\<not> k < i" by blast
      then have "i = k \<or> i < k" by auto
      then show ?thesis using sorted_wrt_nth_less[OF asc, of i k] k by auto
    qed
    from hit True least show ?thesis by (simp add: f)
  next
    case False
    with le have eq: "i = length volumes" by simp
    have "storageSize u < storageSize pv" if "u \<in> set volumes" for u
    proof -
      from that obtain k where k: "k < length volumes" "u = volumes ! k"
        by (auto simp: in_set_conv_nth)
      with below eq have "\<not> ?f k" by simp
      with k show ?thesis by (simp add: f)
    qed
    with False show ?thesis by simp
  qed
qed

lemma FindBestMatchForClaim_unbound_partition:
  fixes claim sig pvIndex srt
  defines "cands \<equiv> candidates sig pvIndex (ClaimAccessModes (ClaimSpec claim))"
      and "request \<equiv> Value (lookup (Requests (Resources (ClaimSpec claim))) ResourceStorage)"
  assumes unbound: "\<forall>v \<in> set cands. ClaimRef (Spec v) = None"
      and perm: "mset (srt byCapacity cands) = mset cands"
      and asc: "sorted_wrt (\<lambda>a b. storageSize a \<le> storageSize b) (srt byCapacity cands)"
  shows "case FindBestMatchForClaim sig srt pvIndex claim of
           Inl err \<Rightarrow> False
         | Inr None \<Rightarrow> \<forall>u \<in> set cands. storageSize u < request
         | Inr (Some v) \<Rightarrow>
             v \<in> set cands \<and> ClaimRef (Spec v) = None \<and> request \<le> storageSize v
             \<and> (\<forall>u \<in> set cands. request \<le> storageSize u \<longrightarrow> storageSize v \<le> storageSize u)"
proof -
  define pv :: PersistentVolume where
    "pv = \<lparr>Name = [], Spec = \<lparr>Capacity = [ResourceStorage \<mapsto>
              lookup (Requests (Resources (ClaimSpec claim))) ResourceStorage],
            AccessModes = ClaimAccessModes (ClaimSpec claim), ClaimRef = None\<rparr>\<rparr>"
  define volumes where "volumes = srt byCapacity cands"
  define i where "i = Search (length volumes) (\<lambda>i. filterBoundVolumes pv (volumes ! i))"
  have set_eq: "set volumes = set cands"
    using perm unfolding volumes_def by (rule mset_eq_setD)
  have pv: "ClaimRef (Spec pv) = None" "storageSize pv = request"
    by (simp_all add: pv_def storageSize_def request_def lookup_def)
  have am: "AccessModes (Spec pv) = ClaimAccessModes (ClaimSpec claim)"
    by (simp add: pv_def)
  have "FindBestMatchForClaim sig srt pvIndex claim = Find sig srt pvIndex pv filterBoundVolumes"
    by (simp add: FindBestMatchForClaim_def FindByAccessModesAndStorageCapacity_def pv_def)
  then have res: "FindBestMatchForClaim sig srt pvIndex claim
               = (if i < length volumes then Inr (Some (volumes ! i)) else Inr None)"
    by (simp add: Find_eq am Let_def volumes_def i_def cands_def)
  have key: "if i < length volumes
         then storageSize pv \<le> storageSize (volumes ! i)
              \<and> (\<forall>u \<in> set volumes. storageSize pv \<le> storageSize u
                     \<longrightarrow> storageSize (volumes ! i) \<le> storageSize u)
         else (\<forall>u \<in> set volumes. storageSize u < storageSize pv)"
    using unbound pv(1) asc i_def unfolding volumes_def[symmetric] set_eq[symmetric]
    by (rule Find_ascending)
  show ?thesis
  proof (cases "i < length volumes")
    case True
    then have "volumes ! i \<in> set cands" using set_eq nth_mem by blast
    with True key unbound show ?thesis by (simp add: res pv set_eq)
  next
    case False
    with key show ?thesis by (simp add: res pv set_eq)
  qed
qed

lemma FindBestMatchForClaim_Sort_short_unbound_partition:
  assumes "\<forall>v \<in> set (candidates sig pvIndex (ClaimAccessModes (ClaimSpec claim))). ClaimRef (Spec v) = None"
  shows "case FindBestMatchForClaim sig Sort_short pvIndex claim of
           Inl err \<Rightarrow> False
         | Inr None \<Rightarrow> \<forall>u \<in> set (candidates sig pvIndex (ClaimAccessModes (ClaimSpec claim))).
               storageSize u < Value (lookup (Requests (Resources (ClaimSpec claim))) ResourceStorage)
         | Inr (Some v) \<Rightarrow>
             v \<in> set (candidates sig pvIndex (ClaimAccessModes (ClaimSpec claim)))
             \<and> ClaimRef (Spec v) = None
             \<and> Value (lookup (Requests (Resources (ClaimSpec claim))) ResourceStorage) \<le> storageSize v
             \<and> (\<forall>u \<in> set (candidates sig pvIndex (ClaimAccessModes (ClaimSpec claim))).
                   Value (lookup (Requests (Resources (ClaimSpec claim))) ResourceStorage) \<le> storageSize u
                     \<longrightarrow> storageSize v \<le> storageSize u)"
  using assms by (intro FindBestMatchForClaim_unbound_partition Sort_short_perm Sort_short_ascending)

section \<open>The claims\<close>

text \<open>The two requests of the example, 8Gi and 3Gi against unbound volumes of 5Gi and
  10Gi, in either order of the store.\<close>

lemma FindBestMatchForClaim_examples:
  "FindBestMatchForClaim GetAccessModesAsString Sort_short
      [VolumeObj (rwoVolume ''pv-a'' (storage (5 * Gi)) None),
       VolumeObj (rwoVolume ''pv-b'' (storage (10 * Gi)) None)]
      (rwoClaim (storage (8 * Gi))) = Inr (Some (rwoVolume ''pv-b'' (storage (10 * Gi)) None))"
  "FindBestMatchForClaim GetAccessModesAsString Sort_short
      [VolumeObj (rwoVolume ''pv-a'' (storage (5 * Gi)) None),
       VolumeObj (rwoVolume ''pv-b'' (storage (10 * Gi)) None)]
      (rwoClaim (storage (3 * Gi))) = Inr (Some (rwoVolume ''pv-a'' (storage (5 * Gi)) None))"
  "FindBestMatchForClaim GetAccessModesAsString Sort_short
      [VolumeObj (rwoVolume ''pv-a'' (storage (10 * Gi)) None),
       VolumeObj (rwoVolume ''pv-b'' (storage (5 * Gi)) None)]
      (rwoClaim (storage (8 * Gi))) = Inr (Some (rwoVolume ''pv-a'' (storage (10 * Gi)) None))"
  "FindBestMatchForClaim GetAccessModesAsString Sort_short
      [VolumeObj (rwoVolume ''pv-a'' (storage (10 * Gi)) None),
       VolumeObj (rwoVolume ''pv-b'' (storage (5 * Gi)) None)]
      (rwoClaim (storage (3 * Gi))) = Inr (Some (rwoVolume ''pv-b'' (storage (5 * Gi)) None))"
  by (simp_all add: query_defs)

text \<open>
  C1. \<^verbatim>\<open>FindBestMatchForClaim\<close> is to return the smallest unbound volume of the claim's
  signature whose storage capacity is at least the request, and nil only when there is
  none. The store below holds, in this order, the unbound \<open>pv-a\<close> of 10Gi and \<open>pv-b\<close> of
  5Gi, bound to a claim. For a request of 3Gi the sort leaves the two in place (a bound
  volume is less than nothing, and 10Gi is not below 5Gi), the binary search looks at
  position 1 only, finds the bound volume there and gives up: the result is nil although
  \<open>pv-a\<close> is unbound and large enough.
\<close>

theorem FindBestMatchForClaim_misses_unbound_volume:
  "FindBestMatchForClaim GetAccessModesAsString Sort_short
      [VolumeObj (rwoVolume ''pv-a'' (storage (10 * Gi)) None),
       VolumeObj (rwoVolume ''pv-b'' (storage (5 * Gi)) claim0)]
      (rwoClaim (storage (3 * Gi))) = Inr None
   \<and> candidates GetAccessModesAsString
        [VolumeObj (rwoVolume ''pv-a'' (storage (10 * Gi)) None),
         VolumeObj (rwoVolume ''pv-b'' (storage (5 * Gi)) claim0)] [''ReadWriteOnce'']
      = [rwoVolume ''pv-a'' (storage (10 * Gi)) None, rwoVolume ''pv-b'' (storage (5 * Gi)) claim0]
   \<and> ClaimRef (Spec (rwoVolume ''pv-a'' (storage (10 * Gi)) None)) = None
   \<and> 3 * Gi \<le> storageSize (rwoVolume ''pv-a'' (storage (10 * Gi)) None)"
  by (simp add: query_defs)

text \<open>
  C2. A volume whose \<^verbatim>\<open>ClaimRef\<close> is set is never the result of
  \<^verbatim>\<open>FindByAccessModesAndStorageCapacity\<close> or of \<^verbatim>\<open>FindBestMatchForClaim\<close>: whenever either
  returns a volume, that volume's \<^verbatim>\<open>ClaimRef\<close> is nil. This holds for every store, every
  request and every sorting routine, since the search only returns a position at which
  it has seen the predicate hold.
\<close>

theorem found_volume_is_unbound:
  "(FindByAccessModesAndStorageCapacity sig srt pvIndex modes qty = Inr (Some v)
      \<longrightarrow> ClaimRef (Spec v) = None)
   \<and> (FindBestMatchForClaim sig srt pvIndex claim = Inr (Some v) \<longrightarrow> ClaimRef (Spec v) = None)"
proof -
  have "ClaimRef (Spec v) = None"
    if "FindByAccessModesAndStorageCapacity sig srt pvIndex ms q = Inr (Some v)" for ms q
  proof -
    from that obtain pv where "Find sig srt pvIndex pv filterBoundVolumes = Inr (Some v)"
      by (simp add: FindByAccessModesAndStorageCapacity_def)
    then have "filterBoundVolumes pv v" by (simp add: Find_Some)
    then show ?thesis by (simp add: filterBoundVolumes_imp)
  qed
  then show ?thesis by (simp add: FindBestMatchForClaim_def)
qed

theorem found_volume_is_unbound_witness:
  "FindByAccessModesAndStorageCapacity GetAccessModesAsString Sort_short
      [VolumeObj (rwoVolume ''pv-a'' (storage (5 * Gi)) claim0),
       VolumeObj (rwoVolume ''pv-b'' (storage (10 * Gi)) None)]
      [''ReadWriteOnce''] (Quantity (Some (3 * Gi)))
     = Inr (Some (rwoVolume ''pv-b'' (storage (10 * Gi)) None))
   \<and> FindBestMatchForClaim GetAccessModesAsString Sort_short
      [VolumeObj (rwoVolume ''pv-a'' (storage (5 * Gi)) claim0),
       VolumeObj (rwoVolume ''pv-b'' (storage (10 * Gi)) None)]
      (rwoClaim (storage (3 * Gi)))
     = Inr (Some (rwoVolume ''pv-b'' (storage (10 * Gi)) None))
   \<and> ClaimRef (Spec (rwoVolume ''pv-b'' (storage (10 * Gi)) None)) = None"
  using found_volume_is_unbound [of GetAccessModesAsString Sort_short
      "[VolumeObj (rwoVolume ''pv-a'' (storage (5 * Gi)) claim0),
        VolumeObj (rwoVolume ''pv-b'' (storage (10 * Gi)) None)]"
      "[''ReadWriteOnce'']" "Quantity (Some (3 * Gi))"
      "rwoVolume ''pv-b'' (storage (10 * Gi)) None" "rwoClaim (storage (3 * Gi))"]
  by (simp add: query_defs)

text \<open>
  C3. In the sequence that \<^verbatim>\<open>ListByAccessModes\<close> returns, two unbound volumes are to stand
  in ascending order of capacity. With a bound volume between them they do not: the store
  below holds \<open>pv-a\<close> (10Gi, unbound), \<open>pv-b\<close> (1Gi, bound) and \<open>pv-c\<close> (5Gi, unbound), and the
  list comes back in that same order, the unbound 10Gi volume before the unbound 5Gi one.
  \<^verbatim>\<open>pv-c\<close> is compared with its neighbour \<open>pv-b\<close> only, and 5Gi is not below 1Gi.
\<close>

theorem ListByAccessModes_unbound_out_of_order:
  "ListByAccessModes GetAccessModesAsString Sort_short
      [VolumeObj (rwoVolume ''pv-a'' (storage (10 * Gi)) None),
       VolumeObj (rwoVolume ''pv-b'' (storage (1 * Gi)) claim0),
       VolumeObj (rwoVolume ''pv-c'' (storage (5 * Gi)) None)]
      [''ReadWriteOnce'']
     = Inr [rwoVolume ''pv-a'' (storage (10 * Gi)) None,
            rwoVolume ''pv-b'' (storage (1 * Gi)) claim0,
            rwoVolume ''pv-c'' (storage (5 * Gi)) None]
   \<and> ClaimRef (Spec (rwoVolume ''pv-a'' (storage (10 * Gi)) None)) = None
   \<and> ClaimRef (Spec (rwoVolume ''pv-c'' (storage (5 * Gi)) None)) = None
   \<and> storageSize (rwoVolume ''pv-c'' (storage (5 * Gi)) None)
       < storageSize (rwoVolume ''pv-a'' (storage (10 * Gi)) None)"
  by (simp add: query_defs)

text \<open>
  C4. For every match predicate and every store, \<^verbatim>\<open>ListByAccessModes\<close> yields a list
  without error, and when the predicate holds for no volume of that list (in particular
  when the list is empty) \<^verbatim>\<open>Find\<close> returns a nil volume and no error.
\<close>

theorem Find_no_match_is_nil:
  "\<exists>volumes. ListByAccessModes sig srt pvIndex (AccessModes (Spec pv)) = Inr volumes
      \<and> ((\<forall>v \<in> set volumes. \<not> matchPredicate pv v) \<longrightarrow> Find sig srt pvIndex pv matchPredicate = Inr None)"
  by (auto simp: ListByAccessModes_eq intro: Find_None)

theorem Find_no_match_is_nil_witness:
  "ListByAccessModes GetAccessModesAsString Sort_short
       [VolumeObj (rwoVolume ''pv-a'' (storage (5 * Gi)) None)]
       (AccessModes (Spec (rwoVolume ''probe'' (storage (20 * Gi)) None)))
     = Inr [rwoVolume ''pv-a'' (storage (5 * Gi)) None]
   \<and> \<not> matchStorageCapacity (rwoVolume ''probe'' (storage (20 * Gi)) None)
          (rwoVolume ''pv-a'' (storage (5 * Gi)) None)
   \<and> Find GetAccessModesAsString Sort_short
       [VolumeObj (rwoVolume ''pv-a'' (storage (5 * Gi)) None)]
       (rwoVolume ''probe'' (storage (20 * Gi)) None) matchStorageCapacity = Inr None
   \<and> ListByAccessModes GetAccessModesAsString Sort_short []
       (AccessModes (Spec (rwoVolume ''probe'' (storage (20 * Gi)) None))) = Inr []
   \<and> Find GetAccessModesAsString Sort_short []
       (rwoVolume ''probe'' (storage (20 * Gi)) None) matchStorageCapacity = Inr None"
  using Find_no_match_is_nil [of GetAccessModesAsString Sort_short
       "[VolumeObj (rwoVolume ''pv-a'' (storage (5 * Gi)) None)]"
       "rwoVolume ''probe'' (storage (20 * Gi)) None" matchStorageCapacity]
     Find_no_match_is_nil [of GetAccessModesAsString Sort_short "[]"
       "rwoVolume ''probe'' (storage (20 * Gi)) None" matchStorageCapacity]
  by (simp add: query_defs)

text \<open>
  C5. Matching is by equality of signatures. A volume whose access modes give another
  signature than the requested modes (as the modes \<open>{A, B}\<close> do for a request of \<open>{A}\<close>) is
  not in the list of \<^verbatim>\<open>ListByAccessModes\<close> and is not returned by \<^verbatim>\<open>Find\<close>,
  \<^verbatim>\<open>FindByAccessModesAndStorageCapacity\<close> or \<^verbatim>\<open>FindBestMatchForClaim\<close> for that request.
  Of the sorting routine the theorem asks that it returns a permutation of its input.
\<close>

theorem exact_signature_only:
  assumes perm: "\<And>volumes. mset (srt byCapacity volumes) = mset volumes"
      and diff: "sig (AccessModes (Spec v)) \<noteq> sig modes"
  shows "(\<exists>volumes. ListByAccessModes sig srt pvIndex modes = Inr volumes \<and> v \<notin> set volumes)
     \<and> (AccessModes (Spec pv) = modes \<longrightarrow> Find sig srt pvIndex pv matchPredicate \<noteq> Inr (Some v))
     \<and> FindByAccessModesAndStorageCapacity sig srt pvIndex modes qty \<noteq> Inr (Some v)
     \<and> (ClaimAccessModes (ClaimSpec claim) = modes
          \<longrightarrow> FindBestMatchForClaim sig srt pvIndex claim \<noteq> Inr (Some v))"
proof -
  have "set (srt byCapacity (candidates sig pvIndex modes)) = set (candidates sig pvIndex modes)"
    using perm by (rule mset_eq_setD)
  with diff have notin: "v \<notin> set (srt byCapacity (candidates sig pvIndex modes))"
    by (simp add: candidates_def)
  have find: "Find sig srt pvIndex p mp \<noteq> Inr (Some v)" if "AccessModes (Spec p) = modes" for p mp
    using Find_Some[of sig srt pvIndex p mp v] notin that by auto
  show ?thesis
    using notin find by (simp add: ListByAccessModes_eq FindBestMatchForClaim_def
        FindByAccessModesAndStorageCapacity_def)
qed

theorem exact_signature_only_witness:
  "GetAccessModesAsString (AccessModes (Spec (rwoRoxVolume ''pv-a'' (storage (10 * Gi)) None)))
      \<noteq> GetAccessModesAsString [''ReadWriteOnce'']
   \<and> ListByAccessModes GetAccessModesAsString Sort_short
        [VolumeObj (rwoRoxVolume ''pv-a'' (storage (10 * Gi)) None),
         VolumeObj (rwoVolume ''pv-b'' (storage (5 * Gi)) None)] [''ReadWriteOnce'']
      = Inr [rwoVolume ''pv-b'' (storage (5 * Gi)) None]
   \<and> FindBestMatchForClaim GetAccessModesAsString Sort_short
        [VolumeObj (rwoRoxVolume ''pv-a'' (storage (10 * Gi)) None),
         VolumeObj (rwoVolume ''pv-b'' (storage (5 * Gi)) None)] (rwoClaim (storage (8 * Gi)))
      \<noteq> Inr (Some (rwoRoxVolume ''pv-a'' (storage (10 * Gi)) None))"
  using exact_signature_only [of Sort_short GetAccessModesAsString "rwoRoxVolume ''pv-a'' (storage (10 * Gi)) None"
      "[''ReadWriteOnce'']"
      "[VolumeObj (rwoRoxVolume ''pv-a'' (storage (10 * Gi)) None),
        VolumeObj (rwoVolume ''pv-b'' (storage (5 * Gi)) None)]"
      "rwoVolume ''probe'' Map.empty None" matchStorageCapacity "Quantity (Some (8 * Gi))"
      "rwoClaim (storage (8 * Gi))", OF Sort_short_perm]
  by (simp add: query_defs)

text \<open>
  C6, as stated: the ordering of \<^verbatim>\<open>ListByAccessModes\<close> keeps volumes of equal capacity and
  equal bound status in the order of the candidate sequence. It does not: \<^verbatim>\<open>Less\<close> is the
  non-strict comparison, so the insertion loop moves a volume past a neighbour of equal
  capacity. Two unbound volumes of 5Gi each, \<open>pv-a\<close> before \<open>pv-b\<close> in the store, are listed
  as \<open>pv-b\<close>, \<open>pv-a\<close>.
\<close>

theorem ListByAccessModes_not_stable:
  "candidates GetAccessModesAsString
      [VolumeObj (rwoVolume ''pv-a'' (storage (5 * Gi)) None),
       VolumeObj (rwoVolume ''pv-b'' (storage (5 * Gi)) None)] [''ReadWriteOnce'']
     = [rwoVolume ''pv-a'' (storage (5 * Gi)) None, rwoVolume ''pv-b'' (storage (5 * Gi)) None]
   \<and> ListByAccessModes GetAccessModesAsString Sort_short
      [VolumeObj (rwoVolume ''pv-a'' (storage (5 * Gi)) None),
       VolumeObj (rwoVolume ''pv-b'' (storage (5 * Gi)) None)] [''ReadWriteOnce'']
     = Inr [rwoVolume ''pv-b'' (storage (5 * Gi)) None, rwoVolume ''pv-a'' (storage (5 * Gi)) None]
   \<and> rwoVolume ''pv-a'' (storage (5 * Gi)) None \<noteq> rwoVolume ''pv-b'' (storage (5 * Gi)) None
   \<and> storageSize (rwoVolume ''pv-a'' (storage (5 * Gi)) None) = storageSize (rwoVolume ''pv-b'' (storage (5 * Gi)) None)
   \<and> ClaimRef (Spec (rwoVolume ''pv-a'' (storage (5 * Gi)) None)) = ClaimRef (Spec (rwoVolume ''pv-b'' (storage (5 * Gi)) None))"
  by (simp add: query_defs)

text \<open>
  C6, amended. \<^verbatim>\<open>ListByAccessModes\<close> returns a permutation of the candidate sequence, for
  every sorting routine that permutes its input. Its result is determined by the
  candidate sequence: two stores with the same candidate sequence for the requested
  modes, whatever else they hold, give the same list, so that repeated queries over the
  same store contents yield the same ordering. The ordering is not stable: when the
  candidates are two unbound volumes of equal capacity, \<^verbatim>\<open>sort.Sort\<close> (on a slice of two it
  is the insertion sort) returns them in the opposite order.
\<close>

theorem ListByAccessModes_permutes_candidates:
  "((\<forall>volumes. mset (srt byCapacity volumes) = mset volumes) \<longrightarrow>
      (\<exists>volumes. ListByAccessModes sig srt pvIndex modes = Inr volumes
         \<and> mset volumes = mset (candidates sig pvIndex modes)))
   \<and> (candidates sig pvIndex modes = candidates sig pvIndex' modes
        \<longrightarrow> ListByAccessModes sig srt pvIndex modes = ListByAccessModes sig srt pvIndex' modes)
   \<and> (candidates sig pvIndex modes = [a, b] \<and> ClaimRef (Spec a) = None \<and> ClaimRef (Spec b) = None
        \<and> storageSize a = storageSize b
      \<longrightarrow> ListByAccessModes sig Sort_short pvIndex modes = Inr [b, a])"
  by (simp add: ListByAccessModes_eq Sort_short_def insertionSort_def byCapacity_def
      byCapacity_Len_def byCapacity_Less_def byCapacity_Swap_def matchStorageCapacity_def
      storageSize_def Let_def)

theorem ListByAccessModes_permutes_candidates_witness:
  "candidates GetAccessModesAsString
      [VolumeObj (rwoVolume ''pv-a'' (storage (5 * Gi)) None),
       VolumeObj (rwoRoxVolume ''pv-b'' (storage (5 * Gi)) None),
       VolumeObj (rwoVolume ''pv-c'' (storage (5 * Gi)) None)] [''ReadWriteOnce'']
     = [rwoVolume ''pv-a'' (storage (5 * Gi)) None, rwoVolume ''pv-c'' (storage (5 * Gi)) None]
   \<and> candidates GetAccessModesAsString
      [VolumeObj (rwoVolume ''pv-a'' (storage (5 * Gi)) None),
       VolumeObj (rwoRoxVolume ''pv-b'' (storage (5 * Gi)) None),
       VolumeObj (rwoVolume ''pv-c'' (storage (5 * Gi)) None)] [''ReadWriteOnce'']
     = candidates GetAccessModesAsString
      [OtherObj ''pod'',
       VolumeObj (rwoVolume ''pv-a'' (storage (5 * Gi)) None),
       VolumeObj (rwoVolume ''pv-c'' (storage (5 * Gi)) None)] [''ReadWriteOnce'']
   \<and> ClaimRef (Spec (rwoVolume ''pv-a'' (storage (5 * Gi)) None)) = None
   \<and> ClaimRef (Spec (rwoVolume ''pv-c'' (storage (5 * Gi)) None)) = None
   \<and> storageSize (rwoVolume ''pv-a'' (storage (5 * Gi)) None)
       = storageSize (rwoVolume ''pv-c'' (storage (5 * Gi)) None)
   \<and> ListByAccessModes GetAccessModesAsString Sort_short
      [VolumeObj (rwoVolume ''pv-a'' (storage (5 * Gi)) None),
       VolumeObj (rwoRoxVolume ''pv-b'' (storage (5 * Gi)) None),
       VolumeObj (rwoVolume ''pv-c'' (storage (5 * Gi)) None)] [''ReadWriteOnce'']
     = Inr [rwoVolume ''pv-c'' (storage (5 * Gi)) None, rwoVolume ''pv-a'' (storage (5 * Gi)) None]
   \<and> ListByAccessModes GetAccessModesAsString Sort_short
      [OtherObj ''pod'',
       VolumeObj (rwoVolume ''pv-a'' (storage (5 * Gi)) None),
       VolumeObj (rwoVolume ''pv-c'' (storage (5 * Gi)) None)] [''ReadWriteOnce'']
     = Inr [rwoVolume ''pv-c'' (storage (5 * Gi)) None, rwoVolume ''pv-a'' (storage (5 * Gi)) None]
   \<and> mset [rwoVolume ''pv-c'' (storage (5 * Gi)) None, rwoVolume ''pv-a'' (storage (5 * Gi)) None]
     = mset (candidates GetAccessModesAsString
      [VolumeObj (rwoVolume ''pv-a'' (storage (5 * Gi)) None),
       VolumeObj (rwoRoxVolume ''pv-b'' (storage (5 * Gi)) None),
       VolumeObj (rwoVolume ''pv-c'' (storage (5 * Gi)) None)] [''ReadWriteOnce''])"
  using ListByAccessModes_permutes_candidates [of Sort_short GetAccessModesAsString
      "[VolumeObj (rwoVolume ''pv-a'' (storage (5 * Gi)) None),
        VolumeObj (rwoRoxVolume ''pv-b'' (storage (5 * Gi)) None),
        VolumeObj (rwoVolume ''pv-c'' (storage (5 * Gi)) None)]" "[''ReadWriteOnce'']"
      "[OtherObj ''pod'',
        VolumeObj (rwoVolume ''pv-a'' (storage (5 * Gi)) None),
        VolumeObj (rwoVolume ''pv-c'' (storage (5 * Gi)) None)]"
      "rwoVolume ''pv-a'' (storage (5 * Gi)) None" "rwoVolume ''pv-c'' (storage (5 * Gi)) None"]
    Sort_short_perm
  by (simp add: query_defs)

text \<open>
  C7, as stated: for every input object \<^verbatim>\<open>accessModesIndexFunc\<close> returns an error exactly
  when the object is not a persistent volume, and the signature otherwise. On the nil
  pointer of type \<^verbatim>\<open>*api.PersistentVolume\<close> it does neither: the type assertion succeeds,
  \<^verbatim>\<open>pv.Spec\<close> dereferences the nil pointer, and the call panics.
\<close>

theorem accessModesIndexFunc_nil_volume_panics:
  "accessModesIndexFunc GetAccessModesAsString NilVolumeObj = Inl NilPointerPanic
   \<and> isPanic NilPointerPanic"
  by simp

text \<open>
  C7, amended. \<^verbatim>\<open>accessModesIndexFunc\<close> returns an error exactly when the dynamic type of
  its argument is not \<^verbatim>\<open>*api.PersistentVolume\<close>, and that error names the argument; for a
  non-nil pointer to a persistent volume it returns the signature of the volume's access
  modes and no error; on the nil pointer of that type it panics. The error is handed on
  and not swallowed: the lookup of the store fails with the index function's error on its
  probe, and \<^verbatim>\<open>ListByAccessModes\<close> and \<^verbatim>\<open>Find\<close> return every error of the lookup, over any
  implementation of the store, as it is.
\<close>

theorem accessModesIndexFunc_error_iff_not_volume:
  "((\<exists>err. accessModesIndexFunc sig obj = Inl err \<and> \<not> isPanic err)
      \<longleftrightarrow> obj \<noteq> NilVolumeObj \<and> (\<forall>pv. obj \<noteq> VolumeObj pv))
   \<and> (obj \<noteq> NilVolumeObj \<and> (\<forall>pv. obj \<noteq> VolumeObj pv)
        \<longrightarrow> accessModesIndexFunc sig obj = Inl (NotPersistentVolume obj))
   \<and> accessModesIndexFunc sig (VolumeObj pv) = Inr (sig (AccessModes (Spec pv)))
   \<and> accessModesIndexFunc sig NilVolumeObj = Inl NilPointerPanic \<and> isPanic NilPointerPanic
   \<and> (accessModesIndexFunc sig obj = Inl err
        \<longrightarrow> Index (accessModesIndexFunc sig) store obj = Inl err)
   \<and> (index (VolumeObj \<lparr>Name = [], Spec = \<lparr>Capacity = Map.empty,
                 AccessModes = AccessModes (Spec pv), ClaimRef = None\<rparr>\<rparr>) = Inl err
        \<longrightarrow> ListByAccessModes_over index srt (AccessModes (Spec pv)) = Inl err
            \<and> Find_over index srt pv matchPredicate = Inl err)"
  by (cases obj) (simp_all add: Index_def ListByAccessModes_over_def Find_over_def)

theorem accessModesIndexFunc_error_iff_not_volume_witness:
  "accessModesIndexFunc GetAccessModesAsString (OtherObj ''pod'') = Inl (NotPersistentVolume (OtherObj ''pod''))
   \<and> \<not> isPanic (NotPersistentVolume (OtherObj ''pod''))
   \<and> OtherObj ''pod'' \<noteq> NilVolumeObj
   \<and> Index (accessModesIndexFunc GetAccessModesAsString)
        [VolumeObj (rwoVolume ''pv-a'' (storage (5 * Gi)) None)] (OtherObj ''pod'')
      = Inl (NotPersistentVolume (OtherObj ''pod''))
   \<and> accessModesIndexFunc GetAccessModesAsString (VolumeObj (rwoVolume ''pv-a'' (storage (5 * Gi)) None))
      = Inr ''RWO,''
   \<and> failingIndex (VolumeObj \<lparr>Name = [], Spec = \<lparr>Capacity = Map.empty,
          AccessModes = AccessModes (Spec (rwoVolume ''pv-a'' (storage (5 * Gi)) None)), ClaimRef = None\<rparr>\<rparr>)
      = Inl (LookupFailure ''Index with name accessmodes does not exist'')
   \<and> ListByAccessModes_over failingIndex Sort_short
        (AccessModes (Spec (rwoVolume ''pv-a'' (storage (5 * Gi)) None)))
      = Inl (LookupFailure ''Index with name accessmodes does not exist'')
   \<and> Find_over failingIndex Sort_short (rwoVolume ''pv-a'' (storage (5 * Gi)) None) matchStorageCapacity
      = Inl (LookupFailure ''Index with name accessmodes does not exist'')"
  using accessModesIndexFunc_error_iff_not_volume [of GetAccessModesAsString "OtherObj ''pod''"
      "rwoVolume ''pv-a'' (storage (5 * Gi)) None" "NotPersistentVolume (OtherObj ''pod'')"
      "[VolumeObj (rwoVolume ''pv-a'' (storage (5 * Gi)) None)]"]
    accessModesIndexFunc_error_iff_not_volume [of GetAccessModesAsString "OtherObj ''pod''"
      "rwoVolume ''pv-a'' (storage (5 * Gi)) None"
      "LookupFailure ''Index with name accessmodes does not exist''"
      "[VolumeObj (rwoVolume ''pv-a'' (storage (5 * Gi)) None)]" failingIndex Sort_short matchStorageCapacity]
  by (simp add: query_defs failingIndex_def)

text \<open>
  C8. \<^verbatim>\<open>ListByAccessModes\<close> does not filter bound volumes: every stored volume whose
  signature equals that of the requested modes is in the returned list, whether its
  \<^verbatim>\<open>ClaimRef\<close> is set or not. A bound volume is rejected by the match predicates alone.
  Of the sorting routine the theorem asks that it returns a permutation of its input.
\<close>

theorem ListByAccessModes_lists_bound_volumes:
  assumes perm: "\<And>volumes. mset (srt byCapacity volumes) = mset volumes"
      and stored: "VolumeObj v \<in> set pvIndex"
      and same: "sig (AccessModes (Spec v)) = sig modes"
  shows "(\<exists>volumes. ListByAccessModes sig srt pvIndex modes = Inr volumes \<and> v \<in> set volumes)
     \<and> (ClaimRef (Spec v) \<noteq> None \<longrightarrow>
          \<not> matchStorageCapacity v pv \<and> \<not> filterBoundVolumes v pv \<and> \<not> filterBoundVolumes pv v)"
proof -
  have "set (srt byCapacity (candidates sig pvIndex modes)) = set (candidates sig pvIndex modes)"
    using perm by (rule mset_eq_setD)
  moreover have "v \<in> set (candidates sig pvIndex modes)"
    using stored same by (simp add: candidates_def volumesIn_set)
  ultimately show ?thesis
    by (simp add: ListByAccessModes_eq matchStorageCapacity_def filterBoundVolumes_def)
qed

theorem ListByAccessModes_lists_bound_volumes_witness:
  "VolumeObj (rwoVolume ''pv-a'' (storage (5 * Gi)) claim0)
      \<in> set [VolumeObj (rwoVolume ''pv-a'' (storage (5 * Gi)) claim0),
              VolumeObj (rwoVolume ''pv-b'' (storage (10 * Gi)) None)]
   \<and> GetAccessModesAsString (AccessModes (Spec (rwoVolume ''pv-a'' (storage (5 * Gi)) claim0)))
      = GetAccessModesAsString [''ReadWriteOnce'']
   \<and> ClaimRef (Spec (rwoVolume ''pv-a'' (storage (5 * Gi)) claim0)) \<noteq> None
   \<and> ListByAccessModes GetAccessModesAsString Sort_short
        [VolumeObj (rwoVolume ''pv-a'' (storage (5 * Gi)) claim0),
         VolumeObj (rwoVolume ''pv-b'' (storage (10 * Gi)) None)] [''ReadWriteOnce'']
      = Inr [rwoVolume ''pv-a'' (storage (5 * Gi)) claim0, rwoVolume ''pv-b'' (storage (10 * Gi)) None]
   \<and> \<not> filterBoundVolumes (rwoVolume ''probe'' (storage (3 * Gi)) None)
          (rwoVolume ''pv-a'' (storage (5 * Gi)) claim0)"
  using ListByAccessModes_lists_bound_volumes [of Sort_short "rwoVolume ''pv-a'' (storage (5 * Gi)) claim0"
      "[VolumeObj (rwoVolume ''pv-a'' (storage (5 * Gi)) claim0),
        VolumeObj (rwoVolume ''pv-b'' (storage (10 * Gi)) None)]"
      GetAccessModesAsString "[''ReadWriteOnce'']" "rwoVolume ''probe'' (storage (3 * Gi)) None",
      OF Sort_short_perm]
  by (simp add: query_defs)

text \<open>
  C9. A volume without a storage entry in its capacity has storage size 0, and the
  comparison neither fails nor panics. \<^verbatim>\<open>FindBestMatchForClaim\<close> for a claim without a
  storage request is then to return the first unbound volume of the sorted partition.
  In the store below, the unbound \<open>pv-a\<close> before the bound \<open>pv-b\<close>, both without a storage
  entry, the sorted partition is \<open>pv-a\<close>, \<open>pv-b\<close>; the binary search looks at position 1
  only and the result is nil, although \<open>pv-a\<close> is the first unbound volume.
\<close>

theorem FindBestMatchForClaim_no_request_misses_unbound_volume:
  "storageSize (rwoVolume ''pv-a'' Map.empty None) = 0
   \<and> ListByAccessModes GetAccessModesAsString Sort_short
        [VolumeObj (rwoVolume ''pv-a'' Map.empty None), VolumeObj (rwoVolume ''pv-b'' Map.empty claim0)]
        [''ReadWriteOnce'']
      = Inr [rwoVolume ''pv-a'' Map.empty None, rwoVolume ''pv-b'' Map.empty claim0]
   \<and> ClaimRef (Spec (rwoVolume ''pv-a'' Map.empty None)) = None
   \<and> FindBestMatchForClaim GetAccessModesAsString Sort_short
        [VolumeObj (rwoVolume ''pv-a'' Map.empty None), VolumeObj (rwoVolume ''pv-b'' Map.empty claim0)]
        (rwoClaim Map.empty) = Inr None"
  by (simp add: query_defs)

text \<open>
  C10. The four queries leave the store as it was: \<^verbatim>\<open>ListByAccessModes\<close> sorts the array
  that it has allocated itself, so after a query the store and every array that existed
  before it are unchanged. The results of the state transformers are those of the
  functions above.
\<close>

theorem queries_leave_store_unchanged:
  "unchanged w (snd (ListByAccessModes_st sig srt modes w))
   \<and> unchanged w (snd (Find_st sig srt pv matchPredicate w))
   \<and> unchanged w (snd (FindByAccessModesAndStorageCapacity_st sig srt modes qty w))
   \<and> unchanged w (snd (FindBestMatchForClaim_st sig srt claim w))
   \<and> fst (Find_st sig srt pv matchPredicate w) = Find sig srt (indexer w) pv matchPredicate
   \<and> fst (FindByAccessModesAndStorageCapacity_st sig srt modes qty w)
       = FindByAccessModesAndStorageCapacity sig srt (indexer w) modes qty
   \<and> fst (FindBestMatchForClaim_st sig srt claim w) = FindBestMatchForClaim sig srt (indexer w) claim"
  by (simp add: ListByAccessModes_st_eq Find_st_eq FindByAccessModesAndStorageCapacity_st_def
      FindBestMatchForClaim_st_def FindByAccessModesAndStorageCapacity_def FindBestMatchForClaim_def
      unchanged_append)

end
